theory Spec2Isabelle
  imports Main "HOL-Library.Word"
begin

section \<open>Data model of life.c\<close>

text \<open>
  \<^verbatim>\<open>BYTE\<close> is \<^verbatim>\<open>unsigned char\<close>: cell values and stored neighbour counts are
  8-bit words, compared as unsigned numbers.
\<close>

type_synonym byte = "8 word"

definition ALIVE :: byte where
  "ALIVE = 88"

definition DEAD :: byte where
  "DEAD = 32"

definition WIDTH :: int where
  "WIDTH = 40"

definition HEIGHT :: int where
  "HEIGHT = 25"

text \<open>
  \<^verbatim>\<open>screen\<close> and \<^verbatim>\<open>_field_count\<close> are arrays \<^verbatim>\<open>BYTE [HEIGHT][WIDTH]\<close>. An array is a
  function from the index pair \<open>(y, x)\<close> (row first, as in \<^verbatim>\<open>screen[y][x]\<close>) to the
  byte stored there. Indices are the \<^verbatim>\<open>int\<close> values the C expressions \<^verbatim>\<open>y + dy\<close>
  and \<^verbatim>\<open>x + dx\<close> have after integer promotion. The cells of the array are the
  pairs with \<open>0 \<le> y < HEIGHT\<close> and \<open>0 \<le> x < WIDTH\<close>; the loops below run over
  \<open>1 \<le> y < HEIGHT - 1\<close> and \<open>1 \<le> x < WIDTH - 1\<close> and touch index pairs at distance
  at most one from these, so every access they make is to a cell of the array. The two
  arrays are different objects: a store to one leaves the other as it is.
\<close>

type_synonym grid = "int \<times> int \<Rightarrow> byte"

text \<open>
  The globals of the program. \<^verbatim>\<open>_limit\<close> is an \<^verbatim>\<open>int\<close> that is only compared,
  \<^verbatim>\<open>_iterations\<close> an \<^verbatim>\<open>unsigned int\<close> that is only compared with a counter
  running up to it, so both are kept as their numeric values. The C library's
  \<^verbatim>\<open>rand()\<close> is not part of the program: \<open>rand_seq\<close> is the sequence of values
  it is going to return, and \<open>rand_pos\<close> the number of calls made so far.
\<close>

record state =
  screen :: grid
  field_count :: grid
  limit :: int
  iterations :: nat
  rand_seq :: "nat \<Rightarrow> int"
  rand_pos :: nat

definition in_grid :: "int \<Rightarrow> int \<Rightarrow> bool" where
  "in_grid y x = (0 \<le> y \<and> y < HEIGHT \<and> 0 \<le> x \<and> x < WIDTH)"

definition interior :: "int \<Rightarrow> int \<Rightarrow> bool" where
  "interior y x = (1 \<le> y \<and> y \<le> HEIGHT - 2 \<and> 1 \<le> x \<and> x \<le> WIDTH - 2)"

definition border :: "int \<Rightarrow> int \<Rightarrow> bool" where
  "border y x = (in_grid y x \<and> (y = 0 \<or> y = HEIGHT - 1 \<or> x = 0 \<or> x = WIDTH - 1))"

section \<open>The functions of life.c\<close>

text \<open>
  The counting loop \<^verbatim>\<open>for (i = lo; i < hi; i++) body\<close>. The counters of the program
  are \<^verbatim>\<open>BYTE\<close>s below 25 and 40 and \<^verbatim>\<open>int\<close>s between -1 and 2, so the increment
  never wraps.
\<close>

function for_loop :: "int \<Rightarrow> int \<Rightarrow> (int \<Rightarrow> 's \<Rightarrow> 's) \<Rightarrow> 's \<Rightarrow> 's" where
  "for_loop i hi body s = (if i < hi then for_loop (i + 1) hi body (body i s) else s)"
  by pat_completeness auto
termination
  by (relation "measure (\<lambda>(i, hi, body, s). nat (hi - i))") auto

declare for_loop.simps [simp del]

text \<open>
  \<^verbatim>\<open>count_neighbours(y, x)\<close>: the local \<^verbatim>\<open>count\<close> is carried through both loops
  together with the program state; \<^verbatim>\<open>dy <= 1\<close> is \<open>dy < 2\<close> on integers, and
  \<^verbatim>\<open>continue\<close> leaves the counter as it is.
\<close>

definition count_neighbours :: "int \<Rightarrow> int \<Rightarrow> state \<Rightarrow> int \<times> state" where
  "count_neighbours y x s =
     for_loop (- 1) 2 (\<lambda>dy.
       for_loop (- 1) 2 (\<lambda>dx (count, s).
         if dy = 0 \<and> dx = 0 then (count, s)
         else if screen s (y + dy, x + dx) = ALIVE then (count + 1, s)
         else (count, s)))
     (0, s)"

text \<open>
  \<^verbatim>\<open>count_field\<close>: \<open>count_cell\<close> is the body of its inner loop; the \<^verbatim>\<open>int\<close>
  result of \<^verbatim>\<open>count_neighbours\<close> is converted to \<^verbatim>\<open>BYTE\<close> by the assignment.
\<close>

definition count_cell :: "int \<Rightarrow> int \<Rightarrow> state \<Rightarrow> state" where
  "count_cell y x s =
     (case count_neighbours y x s of
        (c, s') \<Rightarrow> s'\<lparr>field_count := (field_count s')((y, x) := word_of_int c)\<rparr>)"

definition count_field :: "state \<Rightarrow> state" where
  "count_field = for_loop 1 (HEIGHT - 1) (\<lambda>y. for_loop 1 (WIDTH - 1) (\<lambda>x. count_cell y x))"

text \<open>
  \<^verbatim>\<open>calculate_field\<close>: \<open>calculate_cell\<close> is the body of its inner loop. The
  comparisons \<^verbatim>\<open>count < 2\<close> and \<^verbatim>\<open>count > 3\<close> are on a \<^verbatim>\<open>BYTE\<close>, so unsigned.
\<close>

definition calculate_cell :: "int \<Rightarrow> int \<Rightarrow> state \<Rightarrow> state" where
  "calculate_cell y x s =
     (let count = field_count s (y, x);
          current = screen s (y, x)
      in if current = ALIVE then
           (if count < 2 \<or> count > 3 then s\<lparr>screen := (screen s)((y, x) := DEAD)\<rparr>
            else s)
         else if count = 3 then s\<lparr>screen := (screen s)((y, x) := ALIVE)\<rparr>
         else s)"

definition calculate_field :: "state \<Rightarrow> state" where
  "calculate_field =
     for_loop 1 (HEIGHT - 1) (\<lambda>y. for_loop 1 (WIDTH - 1) (\<lambda>x. calculate_cell y x))"

text \<open>\<^verbatim>\<open>rand()\<close>: the next value of the sequence.\<close>

definition rand :: "state \<Rightarrow> int \<times> state" where
  "rand s = (rand_seq s (rand_pos s), s\<lparr>rand_pos := rand_pos s + 1\<rparr>)"

text \<open>
  \<^verbatim>\<open>init_screen\<close>: \<open>init_cell\<close> is the body of its inner loop; the local
  \<^verbatim>\<open>char c\<close> holds 32 or 88, which the assignment to the \<^verbatim>\<open>BYTE\<close> keeps.
\<close>

definition init_cell :: "int \<Rightarrow> int \<Rightarrow> state \<Rightarrow> state" where
  "init_cell y x s =
     (case rand s of
        (r, s') \<Rightarrow>
          let c = (if r < limit s' then DEAD else ALIVE)
          in s'\<lparr>screen := (screen s')((y, x) := c)\<rparr>)"

definition init_screen :: "state \<Rightarrow> state" where
  "init_screen = for_loop 1 (HEIGHT - 1) (\<lambda>y. for_loop 1 (WIDTH - 1) (\<lambda>x. init_cell y x))"

text \<open>The body of the loop of \<^verbatim>\<open>calculate\<close>: one generation.\<close>

definition generation :: "state \<Rightarrow> state" where
  "generation s = calculate_field (count_field s)"

section \<open>The driver\<close>

text \<open>
  \<^verbatim>\<open>calculate\<close> reads \<^verbatim>\<open>_iterations\<close> at every test of its loop condition. The
  counter \<^verbatim>\<open>i\<close> stays below \<^verbatim>\<open>_iterations\<close>, so its increment never wraps. The
  loop ends because neither \<^verbatim>\<open>count_field\<close> nor \<^verbatim>\<open>calculate_field\<close> assigns to
  \<^verbatim>\<open>_iterations\<close>, which is what the termination proof shows.
\<close>

function calculate_loop :: "nat \<Rightarrow> state \<Rightarrow> state" where
  "calculate_loop i s =
     (if i < iterations s then calculate_loop (i + 1) (calculate_field (count_field s)) else s)"
  by pat_completeness auto
termination
proof (relation "measure (\<lambda>(i, s). iterations s - i)")
  show "wf (measure (\<lambda>(i, s). iterations s - i))" by simp
next
  fix i and s :: state assume less: "i < iterations s"
  have keep: "iterations (for_loop lo hi body t) = iterations t"
    if "\<And>j u. iterations (body j u) = iterations u"
    for lo hi and body :: "int \<Rightarrow> state \<Rightarrow> state" and t
    using that by (induction lo hi body t rule: for_loop.induct) (subst for_loop.simps, simp)
  have "snd (count_neighbours y x t) = t" for y x t
    by (simp add: count_neighbours_def for_loop.simps)
  then have "iterations (count_cell y x t) = iterations t" for y x t
    by (simp add: count_cell_def split_beta)
  moreover have "iterations (calculate_cell y x t) = iterations t" for y x t
    by (simp add: calculate_cell_def Let_def)
  ultimately have "iterations (calculate_field (count_field s)) = iterations s"
    by (simp add: calculate_field_def count_field_def keep)
  with less show "((i + 1, calculate_field (count_field s)), (i, s)) \<in> measure (\<lambda>(i, s). iterations s - i)"
    by simp
qed

declare calculate_loop.simps [simp del]

definition calculate :: "state \<Rightarrow> state" where
  "calculate s = calculate_loop 0 s"

section \<open>The reference semantics\<close>

text \<open>
  The eight immediate neighbours of a cell: north, south, east, west and the four
  diagonals, and the number of them that hold \<open>ALIVE\<close>.
\<close>

definition neighbours :: "int \<Rightarrow> int \<Rightarrow> (int \<times> int) list" where
  "neighbours y x =
     [(y - 1, x), (y + 1, x), (y, x + 1), (y, x - 1),
      (y - 1, x - 1), (y - 1, x + 1), (y + 1, x - 1), (y + 1, x + 1)]"

definition alive_neighbours :: "grid \<Rightarrow> int \<Rightarrow> int \<Rightarrow> nat" where
  "alive_neighbours g y x = length (filter (\<lambda>p. g p = ALIVE) (neighbours y x))"

text \<open>
  The rule of the Game of Life on one cell, given the number of its neighbours that are
  alive: a live cell with fewer than two or more than three live neighbours dies, a
  live cell with two or three stays alive, any other cell with exactly three is born,
  and a cell that is not alive and has another count stays what it is.
\<close>

definition next_state :: "byte \<Rightarrow> nat \<Rightarrow> byte" where
  "next_state v n =
     (if v = ALIVE then (if n < 2 \<or> n > 3 then DEAD else ALIVE)
      else if n = 3 then ALIVE else v)"

text \<open>
  The next generation as a function of the grid alone: the rule at every interior
  cell, with the neighbours counted in the grid it is given; every other cell is kept.
\<close>

definition next_generation :: "grid \<Rightarrow> grid" where
  "next_generation g =
     (\<lambda>(y, x). if interior y x then next_state (g (y, x)) (alive_neighbours g y x) else g (y, x))"

section \<open>Auxiliary notions for the loops\<close>

text \<open>What one pass of the inner loop body of \<^verbatim>\<open>calculate_field\<close> stores in a cell.\<close>

definition cell_rule :: "byte \<Rightarrow> byte \<Rightarrow> byte" where
  "cell_rule current count =
     (if current = ALIVE then (if count < 2 \<or> count > 3 then DEAD else current)
      else if count = 3 then ALIVE else current)"

text \<open>
  The cells the nested loops have already visited when the outer counter is \<open>y\<close>
  and the inner counter is \<open>x\<close>: the interior columns of the rows before \<open>y\<close>, and
  the columns before \<open>x\<close> of row \<open>y\<close>.
\<close>

definition processed :: "int \<Rightarrow> int \<Rightarrow> int \<times> int \<Rightarrow> bool" where
  "processed y x p =
     (1 \<le> snd p \<and> snd p < WIDTH - 1 \<and> 1 \<le> fst p \<and> (fst p < y \<or> fst p = y \<and> snd p < x))"

text \<open>
  The number of interior cells \<^verbatim>\<open>init_screen\<close> visits before the cell \<open>p\<close>: the
  interior is scanned row by row, \<open>WIDTH - 2\<close> cells to a row.
\<close>

definition draw_index :: "int \<times> int \<Rightarrow> nat" where
  "draw_index p = nat ((fst p - 1) * (WIDTH - 2) + (snd p - 1))"

section \<open>Example grids\<close>

text \<open>
  The grid whose cells in the list are \<open>ALIVE\<close> and whose other cells are \<open>DEAD\<close>,
  and a program state around a grid: the counts cleared, the threshold 23000 that the
  usage text recommends, two iterations, and a random source that returns 0, 4000,
  8000 and so on.
\<close>

definition alive_at :: "(int \<times> int) list \<Rightarrow> grid" where
  "alive_at cells = (\<lambda>p. if p \<in> set cells then ALIVE else DEAD)"

definition example_state :: "grid \<Rightarrow> state" where
  "example_state g =
     \<lparr>screen = g, field_count = (\<lambda>p. 0), limit = 23000, iterations = 2,
      rand_seq = (\<lambda>k. 4000 * int k), rand_pos = 0\<rparr>"

text \<open>
  A grid displays a pattern when, among the cells of the array, exactly the cells of
  the pattern hold \<open>ALIVE\<close> and all the others hold \<open>DEAD\<close>.
\<close>

definition displays :: "grid \<Rightarrow> (int \<times> int) list \<Rightarrow> bool" where
  "displays g cells =
     (\<forall>y\<in>{0..<HEIGHT}. \<forall>x\<in>{0..<WIDTH}. g (y, x) = (if (y, x) \<in> set cells then ALIVE else DEAD))"

section \<open>Loop invariants\<close>

lemma for_loop_done: "hi \<le> i \<Longrightarrow> for_loop i hi body s = s"
  by (simp add: for_loop.simps)

lemma for_loop_step: "i < hi \<Longrightarrow> for_loop i hi body s = for_loop (i + 1) hi body (body i s)"
  by (subst for_loop.simps) simp

lemma for_loop_invariant:
  assumes "P lo s"
    and "\<And>i t. lo \<le> i \<Longrightarrow> i < hi \<Longrightarrow> P i t \<Longrightarrow> P (i + 1) (body i t)"
    and "lo \<le> hi"
  shows "P hi (for_loop lo hi body s)"
  using assms
proof (induction lo hi body s rule: for_loop.induct)
  case (1 i hi body s)
  show ?case
  proof (cases "i < hi")
    case True
    have "P hi (for_loop (i + 1) hi body (body i s))"
    proof (rule "1.IH" [OF True])
      show "P (i + 1) (body i s)" using "1.prems" True by simp
      show "\<And>j t. i + 1 \<le> j \<Longrightarrow> j < hi \<Longrightarrow> P j t \<Longrightarrow> P (j + 1) (body j t)"
        using "1.prems"(2) by simp
      show "i + 1 \<le> hi" using True by simp
    qed
    then show ?thesis using True by (simp add: for_loop_step)
  next
    case False
    then have "i = hi" using "1.prems"(3) by simp
    then show ?thesis using "1.prems"(1) by (simp add: for_loop_done)
  qed
qed

lemma for_loop2_invariant:
  assumes init: "I ly lx s"
    and step: "\<And>y x t. ly \<le> y \<Longrightarrow> y < hy \<Longrightarrow> lx \<le> x \<Longrightarrow> x < hx \<Longrightarrow> I y x t \<Longrightarrow> I y (x + 1) (body y x t)"
    and wrap: "\<And>y t. ly \<le> y \<Longrightarrow> y < hy \<Longrightarrow> I y hx t \<Longrightarrow> I (y + 1) lx t"
    and "ly \<le> hy" and "lx \<le> hx"
  shows "I hy lx (for_loop ly hy (\<lambda>y. for_loop lx hx (\<lambda>x. body y x)) s)"
proof (rule for_loop_invariant [where P = "\<lambda>y t. I y lx t"])
  show "I ly lx s" by fact
  show "ly \<le> hy" by fact
  fix y t assume y: "ly \<le> y" "y < hy" and t: "I y lx t"
  have "I y hx (for_loop lx hx (\<lambda>x. body y x) t)"
    by (rule for_loop_invariant [where P = "\<lambda>x t. I y x t"]) (use y t step assms(5) in auto)
  then show "I (y + 1) lx (for_loop lx hx (\<lambda>x. body y x) t)"
    using y by (rule wrap [rotated 2])
qed

lemma processed_start: "\<not> processed 1 1 p"
  by (auto simp: processed_def)

lemma processed_step:
  "1 \<le> x \<Longrightarrow> x < WIDTH - 1 \<Longrightarrow> 1 \<le> y \<Longrightarrow> processed y (x + 1) p \<longleftrightarrow> processed y x p \<or> p = (y, x)"
  by (cases p) (auto simp: processed_def)

lemma processed_wrap: "processed y (WIDTH - 1) p \<longleftrightarrow> processed (y + 1) 1 p"
  by (auto simp: processed_def)

lemma processed_end: "processed (HEIGHT - 1) 1 p \<longleftrightarrow> interior (fst p) (snd p)"
  by (auto simp: processed_def interior_def)

lemma screen_update_same: "(\<And>p. f p = screen s p) \<Longrightarrow> s = s\<lparr>screen := f\<rparr>"
proof -
  assume "\<And>p. f p = screen s p"
  then have "f = screen s" by (simp add: fun_eq_iff)
  then show ?thesis by simp
qed

lemma screen_upd_triv: "screen s p = v \<Longrightarrow> s\<lparr>screen := (screen s)(p := v)\<rparr> = s"
  by auto

lemma calculate_cell_eq:
  "calculate_cell y x s =
     s\<lparr>screen := (screen s)((y, x) := cell_rule (screen s (y, x)) (field_count s (y, x)))\<rparr>"
  by (simp add: calculate_cell_def cell_rule_def Let_def screen_upd_triv)

lemma calculate_field_eq:
  "calculate_field s =
     s\<lparr>screen := \<lambda>p. if interior (fst p) (snd p)
                      then cell_rule (screen s p) (field_count s p) else screen s p\<rparr>"
proof -
  let ?I = "\<lambda>y x t. t = s\<lparr>screen := \<lambda>p. if processed y x p
                      then cell_rule (screen s p) (field_count s p) else screen s p\<rparr>"
  have "?I (HEIGHT - 1) 1 (calculate_field s)"
    unfolding calculate_field_def
  proof (rule for_loop2_invariant [where I = ?I])
    show "?I 1 1 s"
      by (rule screen_update_same) (simp add: processed_start)
    show "1 \<le> HEIGHT - 1" "1 \<le> WIDTH - 1"
      by (simp_all add: HEIGHT_def WIDTH_def)
  next
    fix y t assume "?I y (WIDTH - 1) t"
    then show "?I (y + 1) 1 t"
      by (simp add: processed_wrap)
  next
    fix y x t
    assume "1 \<le> y" "y < HEIGHT - 1" "1 \<le> x" "x < WIDTH - 1" and t: "?I y x t"
    then have p: "\<And>p. processed y (x + 1) p \<longleftrightarrow> processed y x p \<or> p = (y, x)"
      and n: "\<not> processed y x (y, x)"
      by (simp_all add: processed_step) (simp add: processed_def)
    show "?I y (x + 1) (calculate_cell y x t)"
      by (simp add: calculate_cell_eq t p n fun_eq_iff)
  qed
  then show ?thesis
    by (simp add: processed_end)
qed

lemma count_neighbours_eq:
  "count_neighbours y x s = (int (alive_neighbours (screen s) y x), s)"
  by (simp add: count_neighbours_def alive_neighbours_def neighbours_def for_loop.simps)

lemma alive_neighbours_le: "alive_neighbours g y x \<le> 8"
proof -
  have "alive_neighbours g y x \<le> length (neighbours y x)"
    unfolding alive_neighbours_def by (rule length_filter_le)
  then show ?thesis by (simp add: neighbours_def)
qed

lemma field_count_update_same: "(\<And>p. f p = field_count s p) \<Longrightarrow> s = s\<lparr>field_count := f\<rparr>"
proof -
  assume "\<And>p. f p = field_count s p"
  then have "f = field_count s" by (simp add: fun_eq_iff)
  then show ?thesis by simp
qed

lemma count_cell_eq:
  "count_cell y x s =
     s\<lparr>field_count := (field_count s)((y, x) := of_nat (alive_neighbours (screen s) y x))\<rparr>"
  by (simp add: count_cell_def count_neighbours_eq)

lemma count_field_eq:
  "count_field s =
     s\<lparr>field_count := \<lambda>p. if interior (fst p) (snd p)
                      then of_nat (alive_neighbours (screen s) (fst p) (snd p))
                      else field_count s p\<rparr>"
proof -
  let ?I = "\<lambda>y x t. t = s\<lparr>field_count := \<lambda>p. if processed y x p
                      then of_nat (alive_neighbours (screen s) (fst p) (snd p))
                      else field_count s p\<rparr>"
  have "?I (HEIGHT - 1) 1 (count_field s)"
    unfolding count_field_def
  proof (rule for_loop2_invariant [where I = ?I])
    show "?I 1 1 s"
      by (rule field_count_update_same) (simp add: processed_start)
    show "1 \<le> HEIGHT - 1" "1 \<le> WIDTH - 1"
      by (simp_all add: HEIGHT_def WIDTH_def)
  next
    fix y t assume "?I y (WIDTH - 1) t"
    then show "?I (y + 1) 1 t"
      by (simp add: processed_wrap)
  next
    fix y x t
    assume "1 \<le> y" "y < HEIGHT - 1" "1 \<le> x" "x < WIDTH - 1" and t: "?I y x t"
    then have p: "\<And>p. processed y (x + 1) p \<longleftrightarrow> processed y x p \<or> p = (y, x)"
      by (simp_all add: processed_step)
    show "?I y (x + 1) (count_cell y x t)"
      by (auto simp add: count_cell_eq t p fun_eq_iff)
  qed
  then show ?thesis
    by (simp add: processed_end)
qed

lemma init_cell_eq:
  "init_cell y x s =
     s\<lparr>rand_pos := rand_pos s + 1,
       screen := (screen s)((y, x) := if rand_seq s (rand_pos s) < limit s then DEAD else ALIVE)\<rparr>"
  by (simp add: init_cell_def rand_def)

lemma init_screen_eq:
  "init_screen s =
     s\<lparr>rand_pos := rand_pos s + nat ((HEIGHT - 2) * (WIDTH - 2)),
       screen := \<lambda>p. if interior (fst p) (snd p)
                      then (if rand_seq s (rand_pos s + draw_index p) < limit s then DEAD else ALIVE)
                      else screen s p\<rparr>"
proof -
  let ?I = "\<lambda>y x t. t = s\<lparr>rand_pos := rand_pos s + draw_index (y, x),
       screen := \<lambda>p. if processed y x p
                      then (if rand_seq s (rand_pos s + draw_index p) < limit s then DEAD else ALIVE)
                      else screen s p\<rparr>"
  have "?I (HEIGHT - 1) 1 (init_screen s)"
    unfolding init_screen_def
  proof (rule for_loop2_invariant [where I = ?I])
    have "s = s\<lparr>screen := \<lambda>p. if processed 1 1 p
                      then (if rand_seq s (rand_pos s + draw_index p) < limit s then DEAD else ALIVE)
                      else screen s p\<rparr>"
      by (rule screen_update_same) (simp add: processed_start)
    then show "?I 1 1 s"
      by (simp add: draw_index_def)
    show "1 \<le> HEIGHT - 1" "1 \<le> WIDTH - 1"
      by (simp_all add: HEIGHT_def WIDTH_def)
  next
    fix y t assume "1 \<le> y" and t: "?I y (WIDTH - 1) t"
    then have "draw_index (y, WIDTH - 1) = draw_index (y + 1, 1)"
      by (simp add: draw_index_def WIDTH_def)
    with t show "?I (y + 1) 1 t"
      by (simp add: processed_wrap)
  next
    fix y x t
    assume "1 \<le> y" "y < HEIGHT - 1" "1 \<le> x" "x < WIDTH - 1" and t: "?I y x t"
    then have p: "\<And>p. processed y (x + 1) p \<longleftrightarrow> processed y x p \<or> p = (y, x)"
      and d: "draw_index (y, x + 1) = draw_index (y, x) + 1"
      by (simp_all add: processed_step draw_index_def WIDTH_def nat_add_distrib)
    show "?I y (x + 1) (init_cell y x t)"
      by (auto simp add: init_cell_eq t p d fun_eq_iff)
  qed
  moreover have "draw_index (HEIGHT - 1, 1) = nat ((HEIGHT - 2) * (WIDTH - 2))"
    by (simp add: draw_index_def HEIGHT_def WIDTH_def)
  ultimately show ?thesis
    by (simp add: processed_end)
qed

lemma iterations_generation: "iterations (generation s) = iterations s"
  by (simp add: generation_def calculate_field_eq count_field_eq)

section \<open>One generation against the reference\<close>

lemma byte_of_count:
  assumes "n \<le> 8"
  shows "(of_nat n :: byte) < 2 \<longleftrightarrow> n < 2" "(of_nat n :: byte) > 3 \<longleftrightarrow> n > 3"
    "(of_nat n :: byte) = 3 \<longleftrightarrow> n = 3"
proof -
  have u: "unat (of_nat n :: byte) = n"
    using assms by (simp add: unat_of_nat)
  show "(of_nat n :: byte) < 2 \<longleftrightarrow> n < 2"
    by (simp add: word_less_nat_alt u)
  show "(of_nat n :: byte) > 3 \<longleftrightarrow> n > 3"
    by (simp add: word_less_nat_alt u)
  show "(of_nat n :: byte) = 3 \<longleftrightarrow> n = 3"
    by (simp add: word_unat_eq_iff u)
qed

lemma cell_rule_count: "n \<le> 8 \<Longrightarrow> cell_rule v (of_nat n) = next_state v n"
  by (simp add: cell_rule_def next_state_def byte_of_count)

lemma generation_eq:
  "generation s =
     s\<lparr>field_count := \<lambda>p. if interior (fst p) (snd p)
                      then of_nat (alive_neighbours (screen s) (fst p) (snd p))
                      else field_count s p,
       screen := next_generation (screen s)\<rparr>"
  by (simp add: generation_def calculate_field_eq count_field_eq next_generation_def
      cell_rule_count alive_neighbours_le fun_eq_iff)

lemma calculate_loop_eq:
  "i \<le> iterations s \<Longrightarrow> calculate_loop i s = (generation ^^ (iterations s - i)) s"
proof (induction i s rule: calculate_loop.induct)
  case (1 i s)
  show ?case
  proof (cases "i < iterations s")
    case True
    then have "calculate_loop i s = calculate_loop (i + 1) (generation s)"
      by (subst calculate_loop.simps) (simp add: generation_def)
    also have "\<dots> = (generation ^^ (iterations (generation s) - (i + 1))) (generation s)"
      using "1.IH" [OF True] True by (simp add: generation_def [symmetric] iterations_generation)
    also have "\<dots> = (generation ^^ Suc (iterations s - (i + 1))) s"
      by (simp add: iterations_generation funpow_Suc_right del: funpow.simps)
    also have "Suc (iterations s - (i + 1)) = iterations s - i"
      using True by simp
    finally show ?thesis .
  next
    case False
    then show ?thesis by (subst calculate_loop.simps) simp
  qed
qed

lemma calculate_eq: "calculate s = (generation ^^ iterations s) s"
  by (simp add: calculate_def calculate_loop_eq)

section \<open>Facts about one generation and about the driver\<close>

lemma neighbours_distinct: "distinct (neighbours y x) \<and> length (neighbours y x) = 8"
  by (simp add: neighbours_def)

lemma screen_generation: "screen (generation s) = next_generation (screen s)"
  by (simp add: generation_eq)

lemma next_generation_cell:
  "next_generation g (y, x) =
     (if interior y x then next_state (g (y, x)) (alive_neighbours g y x) else g (y, x))"
  by (simp add: next_generation_def)

lemma screen_calculate_field:
  "screen (calculate_field s) (y, x) =
     (if interior y x then cell_rule (screen s (y, x)) (field_count s (y, x)) else screen s (y, x))"
  by (simp add: calculate_field_eq)

lemma screen_count_field: "screen (count_field s) = screen s"
  by (simp add: count_field_eq)

lemma border_not_interior: "border y x \<Longrightarrow> \<not> interior y x"
  by (auto simp: border_def interior_def in_grid_def)

text \<open>
  The cells \<^verbatim>\<open>count_neighbours\<close> reads for an interior cell, and the cell itself, are cells
  of the array.
\<close>

lemma interior_access_in_grid:
  "interior y x \<Longrightarrow> - 1 \<le> dy \<Longrightarrow> dy \<le> 1 \<Longrightarrow> - 1 \<le> dx \<Longrightarrow> dx \<le> 1 \<Longrightarrow> in_grid (y + dy) (x + dx)"
  by (simp add: interior_def in_grid_def)

lemma generation_outside: "\<not> interior y x \<Longrightarrow> screen (generation s) (y, x) = screen s (y, x)"
  by (simp add: screen_generation next_generation_cell)

lemma generations_outside:
  "\<not> interior y x \<Longrightarrow> screen ((generation ^^ n) s) (y, x) = screen s (y, x)"
  by (induction n) (simp_all add: generation_outside)

lemma generation_iterations_update:
  "generation (s\<lparr>iterations := k\<rparr>) = (generation s)\<lparr>iterations := k\<rparr>"
  by (simp add: generation_eq cong: if_cong)

lemma generations_iterations_update:
  "(generation ^^ n) (s\<lparr>iterations := k\<rparr>) = ((generation ^^ n) s)\<lparr>iterations := k\<rparr>"
  by (induction n) (simp_all add: generation_iterations_update)

lemma calculate_iterations:
  "calculate (s\<lparr>iterations := n\<rparr>) = ((generation ^^ n) s)\<lparr>iterations := n\<rparr>"
  by (simp add: calculate_eq generations_iterations_update)

lemma generation_keeps_cell:
  assumes "interior y x" and "screen s (y, x) \<noteq> ALIVE"
    and "field_count (count_field s) (y, x) \<noteq> 3"
  shows "screen (generation s) (y, x) = screen s (y, x)"
  using assms
  by (simp add: generation_def screen_calculate_field screen_count_field cell_rule_def)

lemma generations_keep_cell:
  assumes "interior y x" and "screen s (y, x) \<noteq> ALIVE"
    and "\<forall>k<n. field_count (count_field ((generation ^^ k) s)) (y, x) \<noteq> 3"
  shows "screen ((generation ^^ n) s) (y, x) = screen s (y, x)"
  using assms(3)
proof (induction n)
  case 0
  then show ?case by simp
next
  case (Suc n)
  then have keep: "screen ((generation ^^ n) s) (y, x) = screen s (y, x)"
    and count: "field_count (count_field ((generation ^^ n) s)) (y, x) \<noteq> 3"
    by simp_all
  have "screen (generation ((generation ^^ n) s)) (y, x) = screen ((generation ^^ n) s) (y, x)"
    using assms(1,2) keep count by (intro generation_keeps_cell) simp_all
  then show ?case using keep by simp
qed

section \<open>Facts about the example grids and about patterns\<close>

lemma alive_neighbours_example:
  "alive_neighbours (alive_at [(5, 4), (5, 5), (5, 6)]) 5 4 = 1"
  "alive_neighbours (alive_at [(5, 4), (5, 5), (5, 6)]) 5 5 = 2"
  "alive_neighbours (alive_at [(5, 4), (5, 5), (5, 6)]) 4 5 = 3"
  "alive_neighbours (alive_at [(5, 4), (5, 5), (5, 6)]) 4 4 = 2"
  by (simp_all add: alive_neighbours_def neighbours_def alive_at_def ALIVE_def DEAD_def)

lemma displays_alive_at: "displays (alive_at cells) cells"
  by (simp add: displays_def alive_at_def)

lemma alive_neighbours_displays:
  assumes "displays g cells" and "interior y x"
  shows "alive_neighbours g y x = length (filter (\<lambda>q. q \<in> set cells) (neighbours y x))"
proof -
  have "g q = ALIVE \<longleftrightarrow> q \<in> set cells" if "q \<in> set (neighbours y x)" for q
  proof -
    obtain a b where q: "q = (a, b)" by (cases q)
    have "a \<in> {0..<HEIGHT}" "b \<in> {0..<WIDTH}"
      using that assms(2) by (auto simp: q neighbours_def interior_def)
    then have "g (a, b) = (if (a, b) \<in> set cells then ALIVE else DEAD)"
      using assms(1) by (simp add: displays_def)
    then show ?thesis
      by (simp add: q ALIVE_def DEAD_def)
  qed
  then have "filter (\<lambda>q. g q = ALIVE) (neighbours y x) = filter (\<lambda>q. q \<in> set cells) (neighbours y x)"
    by (intro filter_cong) simp_all
  then show ?thesis
    by (simp add: alive_neighbours_def)
qed

lemma hline_to_vline:
  assumes y: "2 \<le> y" "y \<le> HEIGHT - 3" and x: "2 \<le> x" "x \<le> WIDTH - 3"
    and g: "displays g [(y, x - 1), (y, x), (y, x + 1)]"
  shows "displays (next_generation g) [(y - 1, x), (y, x), (y + 1, x)]"
  unfolding displays_def
proof (intro ballI)
  fix y' x' assume in_grid: "y' \<in> {0..<HEIGHT}" "x' \<in> {0..<WIDTH}"
  have here: "g (y', x') = (if (y', x') \<in> set [(y, x - 1), (y, x), (y, x + 1)] then ALIVE else DEAD)"
    using g in_grid by (simp add: displays_def)
  show "next_generation g (y', x') =
          (if (y', x') \<in> set [(y - 1, x), (y, x), (y + 1, x)] then ALIVE else DEAD)"
  proof (cases "interior y' x'")
    case False
    then have "(y', x') \<notin> set [(y, x - 1), (y, x), (y, x + 1)]" "(y', x') \<notin> set [(y - 1, x), (y, x), (y + 1, x)]"
      using y x by (auto simp: interior_def)
    then show ?thesis
      using False here by (auto simp: next_generation_cell)
  next
    case True
    note count = alive_neighbours_displays [OF g True]
    consider (far) "y' < y - 1 \<or> y + 1 < y' \<or> x' < x - 2 \<or> x + 2 < x'"
      | (near) "y' = y - 1 \<or> y' = y \<or> y' = y + 1"
          "x' = x - 2 \<or> x' = x - 1 \<or> x' = x \<or> x' = x + 1 \<or> x' = x + 2"
      by arith
    then show ?thesis
    proof cases
      case far
      then show ?thesis
        using True here count
        by (elim disjE) (simp_all add: next_generation_cell neighbours_def next_state_def)
    next
      case near
      then show ?thesis
        using True here count
        by (elim disjE) (simp_all add: next_generation_cell neighbours_def next_state_def)
    qed
  qed
qed

lemma vline_to_hline:
  assumes y: "2 \<le> y" "y \<le> HEIGHT - 3" and x: "2 \<le> x" "x \<le> WIDTH - 3"
    and g: "displays g [(y - 1, x), (y, x), (y + 1, x)]"
  shows "displays (next_generation g) [(y, x - 1), (y, x), (y, x + 1)]"
  unfolding displays_def
proof (intro ballI)
  fix y' x' assume in_grid: "y' \<in> {0..<HEIGHT}" "x' \<in> {0..<WIDTH}"
  have here: "g (y', x') = (if (y', x') \<in> set [(y - 1, x), (y, x), (y + 1, x)] then ALIVE else DEAD)"
    using g in_grid by (simp add: displays_def)
  show "next_generation g (y', x') =
          (if (y', x') \<in> set [(y, x - 1), (y, x), (y, x + 1)] then ALIVE else DEAD)"
  proof (cases "interior y' x'")
    case False
    then have "(y', x') \<notin> set [(y, x - 1), (y, x), (y, x + 1)]" "(y', x') \<notin> set [(y - 1, x), (y, x), (y + 1, x)]"
      using y x by (auto simp: interior_def)
    then show ?thesis
      using False here by (auto simp: next_generation_cell)
  next
    case True
    note count = alive_neighbours_displays [OF g True]
    consider (far) "x' < x - 1 \<or> x + 1 < x' \<or> y' < y - 2 \<or> y + 2 < y'"
      | (near) "x' = x - 1 \<or> x' = x \<or> x' = x + 1"
          "y' = y - 2 \<or> y' = y - 1 \<or> y' = y \<or> y' = y + 1 \<or> y' = y + 2"
      by arith
    then show ?thesis
    proof cases
      case far
      then show ?thesis
        using True here count
        by (elim disjE) (simp_all add: next_generation_cell neighbours_def next_state_def)
    next
      case near
      then show ?thesis
        using True here count
        by (elim disjE) (simp_all add: next_generation_cell neighbours_def next_state_def)
    qed
  qed
qed

text \<open>
  The margin matters: a horizontal line in row 1 has its centre next to the border, and
  the border cell above the centre is not written, so no vertical line appears.
\<close>

lemma hline_next_to_border:
  assumes "displays (screen s) [(1, x - 1), (1, x), (1, x + 1)]" and "0 \<le> x" and "x < WIDTH"
  shows "\<not> displays (screen (generation s)) [(0, x), (1, x), (2, x)]"
proof
  assume after: "displays (screen (generation s)) [(0, x), (1, x), (2, x)]"
  have cell: "(0::int) \<in> {0..<HEIGHT}" "x \<in> {0..<WIDTH}"
    using assms(2,3) by (simp_all add: HEIGHT_def)
  have "screen s (0, x) = DEAD"
    using assms(1) cell by (simp add: displays_def)
  moreover have "screen (generation s) (0, x) = ALIVE"
    using after cell by (simp add: displays_def)
  moreover have "screen (generation s) (0, x) = screen s (0, x)"
    by (rule generation_outside) (simp add: interior_def)
  ultimately show False
    by (simp add: ALIVE_def DEAD_def)
qed

section \<open>The claims\<close>

text \<open>
  Claim C1. For an interior cell \<open>(y, x)\<close>, let \<open>n\<close> be what \<^verbatim>\<open>count_neighbours\<close>
  returns for it in the state before the generation, \<open>v\<close> the value of the cell before
  and \<open>v'\<close> its value after the generation. A cell that is \<open>ALIVE\<close> with \<open>n < 2\<close> or
  \<open>n > 3\<close> becomes \<open>DEAD\<close>; one that is \<open>ALIVE\<close> with \<open>n = 2\<close> or \<open>n = 3\<close> stays
  \<open>ALIVE\<close>; one that is \<open>DEAD\<close> with \<open>n = 3\<close> becomes \<open>ALIVE\<close>; one that is \<open>DEAD\<close> with
  another count stays \<open>DEAD\<close>.
\<close>

theorem generation_rule:
  assumes "interior y x"
    and "count_neighbours y x s = (n, s')"
    and "v = screen s (y, x)"
    and "v' = screen (generation s) (y, x)"
  shows "(v = ALIVE \<and> (n < 2 \<or> n > 3) \<longrightarrow> v' = DEAD) \<and>
         (v = ALIVE \<and> (n = 2 \<or> n = 3) \<longrightarrow> v' = ALIVE) \<and>
         (v = DEAD \<and> n = 3 \<longrightarrow> v' = ALIVE) \<and>
         (v = DEAD \<and> n \<noteq> 3 \<longrightarrow> v' = DEAD)"
proof -
  have n: "n = int (alive_neighbours (screen s) y x)"
    using assms(2) by (auto simp: count_neighbours_eq)
  have "v' = next_state v (alive_neighbours (screen s) y x)"
    using assms(1,3,4) by (simp add: screen_generation next_generation_cell)
  then show ?thesis
    using n by (auto simp: next_state_def ALIVE_def DEAD_def)
qed

theorem generation_rule_witness:
  "interior 5 4 \<and> interior 5 5 \<and> interior 4 5 \<and> interior 4 4 \<and>
   screen (generation (example_state (alive_at [(5, 4), (5, 5), (5, 6)]))) (5, 4) = DEAD \<and>
   screen (generation (example_state (alive_at [(5, 4), (5, 5), (5, 6)]))) (5, 5) = ALIVE \<and>
   screen (generation (example_state (alive_at [(5, 4), (5, 5), (5, 6)]))) (4, 5) = ALIVE \<and>
   screen (generation (example_state (alive_at [(5, 4), (5, 5), (5, 6)]))) (4, 4) = DEAD"
proof -
  let ?s = "example_state (alive_at [(5, 4), (5, 5), (5, 6)])"
  have i: "interior 5 4" "interior 5 5" "interior 4 5" "interior 4 4"
    by (simp_all add: interior_def HEIGHT_def WIDTH_def)
  have c: "count_neighbours 5 4 ?s = (1, ?s)" "count_neighbours 5 5 ?s = (2, ?s)"
    "count_neighbours 4 5 ?s = (3, ?s)" "count_neighbours 4 4 ?s = (2, ?s)"
    by (simp_all add: count_neighbours_eq example_state_def alive_neighbours_example)
  have v: "screen ?s (5, 4) = ALIVE" "screen ?s (5, 5) = ALIVE"
    "screen ?s (4, 5) = DEAD" "screen ?s (4, 4) = DEAD"
    by (simp_all add: example_state_def alive_at_def)
  show ?thesis
    using generation_rule [OF i(1) c(1) refl refl] generation_rule [OF i(2) c(2) refl refl]
      generation_rule [OF i(3) c(3) refl refl] generation_rule [OF i(4) c(4) refl refl] i v
    by simp
qed

text \<open>
  Claim C2. One generation, \<^verbatim>\<open>count_field\<close> followed by \<^verbatim>\<open>calculate_field\<close>, leaves on
  the screen the reference next generation of the screen it started from, a function of
  that grid alone. Whatever the count buffer held before the generation, stale counts
  included, has no influence on the result.
\<close>

theorem generation_refines_reference:
  "screen (calculate_field (count_field s)) = next_generation (screen s) \<and>
   screen (calculate_field (count_field (s\<lparr>field_count := stale\<rparr>))) = next_generation (screen s)"
  using screen_generation [of s] screen_generation [of "s\<lparr>field_count := stale\<rparr>"]
  by (simp add: generation_def)

theorem generation_refines_reference_witness:
  "screen (calculate_field (count_field (example_state (alive_at [(5, 4), (5, 5), (5, 6)])))) (4, 5) = ALIVE \<and>
   screen (calculate_field (count_field (example_state (alive_at [(5, 4), (5, 5), (5, 6)])))) (5, 6) = DEAD"
proof -
  have "interior 4 5" "interior 5 6"
    by (simp_all add: interior_def HEIGHT_def WIDTH_def)
  moreover have "alive_neighbours (alive_at [(5, 4), (5, 5), (5, 6)]) 5 6 = 1"
    by (simp add: alive_neighbours_def neighbours_def alive_at_def ALIVE_def DEAD_def)
  ultimately show ?thesis
    using generation_refines_reference [of "example_state (alive_at [(5, 4), (5, 5), (5, 6)])"]
    by (simp add: next_generation_cell example_state_def alive_neighbours_example next_state_def)
      (simp add: alive_at_def)
qed

text \<open>
  Claim C3. For an interior cell, \<^verbatim>\<open>count_neighbours\<close> returns the number of the eight
  immediate neighbours (north, south, east, west and the four diagonals) that hold
  \<open>ALIVE\<close>, a number between 0 and 8, and it hands back the program state, the grid
  included, as it received it.
\<close>

theorem count_neighbours_correct:
  assumes "interior y x"
  shows "count_neighbours y x s = (int (alive_neighbours (screen s) y x), s) \<and>
         0 \<le> fst (count_neighbours y x s) \<and> fst (count_neighbours y x s) \<le> 8"
  using alive_neighbours_le [of "screen s" y x] by (simp add: count_neighbours_eq)

theorem count_neighbours_correct_witness:
  "interior 4 5 \<and>
   count_neighbours 4 5 (example_state (alive_at [(5, 4), (5, 5), (5, 6)])) =
     (3, example_state (alive_at [(5, 4), (5, 5), (5, 6)]))"
proof -
  have i: "interior 4 5"
    by (simp add: interior_def HEIGHT_def WIDTH_def)
  show ?thesis
    using count_neighbours_correct [OF i, of "example_state (alive_at [(5, 4), (5, 5), (5, 6)])"] i
    by (simp add: example_state_def alive_neighbours_example)
qed

text \<open>
  Claim C4. A border cell (row 0, row \<open>HEIGHT - 1\<close>, column 0 or column \<open>WIDTH - 1\<close>)
  holds after one generation, and after \<^verbatim>\<open>calculate\<close> has run with any number \<open>n\<close> of
  iterations, the value it held before.
\<close>

theorem border_never_written:
  assumes "border y x"
  shows "screen (generation s) (y, x) = screen s (y, x) \<and>
         screen (calculate (s\<lparr>iterations := n\<rparr>)) (y, x) = screen s (y, x)"
  using assms
  by (simp add: border_not_interior generation_outside calculate_iterations generations_outside)

theorem border_never_written_witness:
  "border 0 5 \<and> border 24 39 \<and>
   screen (calculate ((example_state (alive_at [(0, 5), (1, 4), (1, 5), (1, 6)]))\<lparr>iterations := 7\<rparr>)) (0, 5) = ALIVE \<and>
   screen (calculate ((example_state (alive_at [(0, 5), (1, 4), (1, 5), (1, 6)]))\<lparr>iterations := 7\<rparr>)) (24, 39) = DEAD"
proof -
  have b: "border 0 5" "border 24 39"
    by (simp_all add: border_def in_grid_def HEIGHT_def WIDTH_def)
  show ?thesis
    using border_never_written [OF b(1), of "example_state (alive_at [(0, 5), (1, 4), (1, 5), (1, 6)])" 7]
      border_never_written [OF b(2), of "example_state (alive_at [(0, 5), (1, 4), (1, 5), (1, 6)])" 7] b
    by (simp add: example_state_def alive_at_def)
qed

text \<open>
  Claim C5. \<^verbatim>\<open>calculate\<close> leaves the state that \<^verbatim>\<open>_iterations\<close> generations, one
  after the other, produce from the state at the call; with \<^verbatim>\<open>_iterations\<close> equal to
  0 it returns the state unchanged.
\<close>

theorem calculate_iterates:
  "calculate s = (generation ^^ iterations s) s \<and> (iterations s = 0 \<longrightarrow> calculate s = s)"
  by (simp add: calculate_eq)

theorem calculate_iterates_witness:
  "calculate (example_state (alive_at [(5, 4), (5, 5), (5, 6)])) =
     generation (generation (example_state (alive_at [(5, 4), (5, 5), (5, 6)]))) \<and>
   calculate ((example_state (alive_at [(5, 4), (5, 5), (5, 6)]))\<lparr>iterations := 0\<rparr>) =
     (example_state (alive_at [(5, 4), (5, 5), (5, 6)]))\<lparr>iterations := 0\<rparr>"
  using calculate_iterates [of "example_state (alive_at [(5, 4), (5, 5), (5, 6)])"]
    calculate_iterates [of "(example_state (alive_at [(5, 4), (5, 5), (5, 6)]))\<lparr>iterations := 0\<rparr>"]
  by (simp add: example_state_def numeral_2_eq_2)

text \<open>
  Claim C6. A horizontal line of three \<open>ALIVE\<close> cells centred at \<open>(y, x)\<close>, every other
  cell of the grid \<open>DEAD\<close>, placed away from the border: the line and the vertical
  line through its centre both lie in the interior, that is \<open>2 \<le> y \<le> HEIGHT - 3\<close> and
  \<open>2 \<le> x \<le> WIDTH - 3\<close>. One generation turns it into the vertical line of three cells
  centred at \<open>(y, x)\<close>, and a second generation gives the horizontal line back.
\<close>

theorem blinker_oscillates:
  assumes "2 \<le> y" and "y \<le> HEIGHT - 3" and "2 \<le> x" and "x \<le> WIDTH - 3"
    and "displays (screen s) [(y, x - 1), (y, x), (y, x + 1)]"
  shows "displays (screen (generation s)) [(y - 1, x), (y, x), (y + 1, x)] \<and>
         displays (screen (generation (generation s))) [(y, x - 1), (y, x), (y, x + 1)]"
  using assms by (simp add: screen_generation hline_to_vline vline_to_hline)

theorem blinker_oscillates_witness:
  "displays (screen (example_state (alive_at [(5, 4), (5, 5), (5, 6)]))) [(5, 4), (5, 5), (5, 6)] \<and>
   displays (screen (generation (example_state (alive_at [(5, 4), (5, 5), (5, 6)])))) [(4, 5), (5, 5), (6, 5)] \<and>
   displays (screen (generation (generation (example_state (alive_at [(5, 4), (5, 5), (5, 6)]))))) [(5, 4), (5, 5), (5, 6)]"
proof -
  have d: "displays (screen (example_state (alive_at [(5, 4), (5, 5), (5, 6)]))) [(5, 5 - 1), (5, 5), (5, 5 + 1)]"
    by (simp add: example_state_def displays_alive_at)
  have b: "(2::int) \<le> 5" "5 \<le> HEIGHT - 3" "5 \<le> WIDTH - 3"
    by (simp_all add: HEIGHT_def WIDTH_def)
  show ?thesis
    using blinker_oscillates [OF b(1) b(2) b(1) b(3) d] d by simp
qed

text \<open>
  Claim C7. An interior cell that holds anything but \<open>ALIVE\<close> is \<open>ALIVE\<close> after
  \<^verbatim>\<open>calculate_field\<close> exactly when its stored count is 3, which is exactly when a
  \<open>DEAD\<close> cell in its place would be; and it is \<open>ALIVE\<close> after a whole generation exactly
  when the count that \<^verbatim>\<open>count_field\<close> stored for it is 3.
\<close>

theorem non_alive_treated_as_dead:
  assumes "interior y x" and "screen s (y, x) \<noteq> ALIVE"
  shows "(screen (calculate_field s) (y, x) = ALIVE \<longleftrightarrow> field_count s (y, x) = 3) \<and>
         (screen (calculate_field s) (y, x) = ALIVE \<longleftrightarrow>
            screen (calculate_field (s\<lparr>screen := (screen s)((y, x) := DEAD)\<rparr>)) (y, x) = ALIVE) \<and>
         (screen (generation s) (y, x) = ALIVE \<longleftrightarrow> field_count (count_field s) (y, x) = 3)"
  using assms
  by (simp add: generation_def screen_calculate_field screen_count_field cell_rule_def ALIVE_def DEAD_def)

theorem non_alive_treated_as_dead_witness:
  "interior 5 5 \<and>
   screen ((example_state ((alive_at []) ((5, 5) := 7)))\<lparr>field_count := (\<lambda>p. 3)\<rparr>) (5, 5) \<noteq> ALIVE \<and>
   screen (calculate_field ((example_state ((alive_at []) ((5, 5) := 7)))\<lparr>field_count := (\<lambda>p. 3)\<rparr>)) (5, 5) = ALIVE"
proof -
  let ?s = "(example_state ((alive_at []) ((5, 5) := 7)))\<lparr>field_count := (\<lambda>p. 3)\<rparr>"
  have i: "interior 5 5"
    by (simp add: interior_def HEIGHT_def WIDTH_def)
  have v: "screen ?s (5, 5) \<noteq> ALIVE"
    by (simp add: example_state_def ALIVE_def)
  show ?thesis
    using non_alive_treated_as_dead [OF i v] i v by (simp add: example_state_def)
qed

text \<open>
  Claim C8. \<^verbatim>\<open>init_screen\<close> draws one value from the random source for each interior
  cell, scanning the interior row by row: the cell becomes \<open>DEAD\<close> when its value is
  below \<^verbatim>\<open>_limit\<close> and \<open>ALIVE\<close> otherwise. Every cell outside the interior keeps its
  value. The number of values drawn is the number of interior cells, and different
  interior cells get different draws.
\<close>

theorem init_screen_cells:
  "(interior y x \<longrightarrow>
      screen (init_screen s) (y, x) =
        (if rand_seq s (rand_pos s + draw_index (y, x)) < limit s then DEAD else ALIVE)) \<and>
   (\<not> interior y x \<longrightarrow> screen (init_screen s) (y, x) = screen s (y, x)) \<and>
   rand_pos (init_screen s) = rand_pos s + nat ((HEIGHT - 2) * (WIDTH - 2)) \<and>
   (interior y x \<longrightarrow> draw_index (y, x) < nat ((HEIGHT - 2) * (WIDTH - 2))) \<and>
   (interior y x \<and> interior y' x' \<and> draw_index (y, x) = draw_index (y', x') \<longrightarrow> y = y' \<and> x = x')"
proof (intro conjI impI)
  assume "interior y x"
  then have "1 \<le> y" "y \<le> 23" "1 \<le> x" "x \<le> 38"
    by (simp_all add: interior_def HEIGHT_def WIDTH_def)
  then have "(y - 1) * 38 + (x - 1) < 874"
    by (simp add: algebra_simps)
  then show "draw_index (y, x) < nat ((HEIGHT - 2) * (WIDTH - 2))"
    by (simp add: draw_index_def HEIGHT_def WIDTH_def)
next
  assume a: "interior y x \<and> interior y' x' \<and> draw_index (y, x) = draw_index (y', x')"
  then have b: "1 \<le> y" "1 \<le> x" "x \<le> 38" "1 \<le> y'" "1 \<le> x'" "x' \<le> 38"
    by (simp_all add: interior_def WIDTH_def)
  then have "0 \<le> (y - 1) * 38 + (x - 1)" "0 \<le> (y' - 1) * 38 + (x' - 1)"
    by simp_all
  moreover have "nat ((y - 1) * 38 + (x - 1)) = nat ((y' - 1) * 38 + (x' - 1))"
    using a by (simp add: draw_index_def WIDTH_def)
  ultimately have e: "(y - 1) * 38 + (x - 1) = (y' - 1) * 38 + (x' - 1)"
    by (simp only: eq_nat_nat_iff)
  show "y = y'"
  proof (rule ccontr)
    assume "y \<noteq> y'"
    then consider "y + 1 \<le> y'" | "y' + 1 \<le> y" by linarith
    then show False using e b by cases (simp_all add: algebra_simps)
  qed
  with e show "x = x'" by simp
qed (simp_all add: init_screen_eq)

theorem init_screen_cells_witness:
  "interior 1 1 \<and> interior 1 7 \<and> \<not> interior 0 3 \<and>
   screen (init_screen (example_state (alive_at [(0, 3), (1, 1)]))) (1, 1) = DEAD \<and>
   screen (init_screen (example_state (alive_at [(0, 3), (1, 1)]))) (1, 7) = ALIVE \<and>
   screen (init_screen (example_state (alive_at [(0, 3), (1, 1)]))) (0, 3) = ALIVE"
proof -
  have i: "interior 1 1" "interior 1 7" "\<not> interior 0 3"
    by (simp_all add: interior_def HEIGHT_def WIDTH_def)
  show ?thesis
    using init_screen_cells [of 1 1 "example_state (alive_at [(0, 3), (1, 1)])"]
      init_screen_cells [of 1 7 "example_state (alive_at [(0, 3), (1, 1)])"]
      init_screen_cells [of 0 3 "example_state (alive_at [(0, 3), (1, 1)])"] i
    by (simp add: example_state_def draw_index_def WIDTH_def alive_at_def)
qed

text \<open>
  Claim C9. Running \<^verbatim>\<open>calculate\<close> with \<^verbatim>\<open>_iterations\<close> set to \<open>m\<close> and then again with
  \<^verbatim>\<open>_iterations\<close> set to \<open>n\<close> leaves the same screen as running it once with
  \<^verbatim>\<open>_iterations\<close> set to \<open>m + n\<close>, the number of generations of the two runs together;
  the two final states differ in nothing but \<^verbatim>\<open>_iterations\<close> itself.
\<close>

theorem calculate_additive:
  "calculate ((calculate (s\<lparr>iterations := m\<rparr>))\<lparr>iterations := n\<rparr>) =
     (calculate (s\<lparr>iterations := m + n\<rparr>))\<lparr>iterations := n\<rparr> \<and>
   screen (calculate ((calculate (s\<lparr>iterations := m\<rparr>))\<lparr>iterations := n\<rparr>)) =
     screen (calculate (s\<lparr>iterations := m + n\<rparr>))"
proof -
  have "(generation ^^ (n + m)) s = (generation ^^ n) ((generation ^^ m) s)"
    by (simp add: funpow_add)
  then have "(generation ^^ n) ((generation ^^ m) s) = (generation ^^ (m + n)) s"
    by (simp add: add.commute)
  then show ?thesis
    by (simp add: calculate_iterations generations_iterations_update)
qed

theorem calculate_additive_witness:
  "screen (calculate ((calculate ((example_state (alive_at [(5, 4), (5, 5), (5, 6)]))\<lparr>iterations := 3\<rparr>))\<lparr>iterations := 4\<rparr>)) =
   screen (calculate ((example_state (alive_at [(5, 4), (5, 5), (5, 6)]))\<lparr>iterations := 7\<rparr>))"
  using calculate_additive [where s = "example_state (alive_at [(5, 4), (5, 5), (5, 6)])" and m = 3 and n = 4]
  by simp

text \<open>
  Claim C10. An interior cell whose byte is neither \<open>ALIVE\<close> (88) nor \<open>DEAD\<close> (32) keeps
  that byte through \<^verbatim>\<open>calculate_field\<close> when its stored count is not 3, and so through
  a generation when the count \<^verbatim>\<open>count_field\<close> stores for it is not 3, and through any
  number \<open>n\<close> of generations in each of which that count is not 3.
\<close>

theorem nonstandard_value_persists:
  assumes "interior y x" and "screen s (y, x) \<noteq> ALIVE" and "screen s (y, x) \<noteq> DEAD"
  shows "(field_count s (y, x) \<noteq> 3 \<longrightarrow> screen (calculate_field s) (y, x) = screen s (y, x)) \<and>
         (field_count (count_field s) (y, x) \<noteq> 3 \<longrightarrow>
            screen (generation s) (y, x) = screen s (y, x)) \<and>
         ((\<forall>k<n. field_count (count_field ((generation ^^ k) s)) (y, x) \<noteq> 3) \<longrightarrow>
            screen ((generation ^^ n) s) (y, x) = screen s (y, x))"
  using assms generation_keeps_cell [of y x s] generations_keep_cell [of y x s n]
  by (simp add: screen_calculate_field cell_rule_def)

theorem nonstandard_value_persists_witness:
  "interior 5 5 \<and>
   screen (example_state ((alive_at []) ((5, 5) := 7))) (5, 5) = 7 \<and>
   screen ((generation ^^ 2) (example_state ((alive_at []) ((5, 5) := 7)))) (5, 5) = 7"
proof -
  let ?g = "(alive_at []) ((5, 5) := 7)"
  let ?s = "example_state ?g"
  have i: "interior 5 5"
    by (simp add: interior_def HEIGHT_def WIDTH_def)
  have v: "screen ?s (5, 5) \<noteq> ALIVE" "screen ?s (5, 5) \<noteq> DEAD" "screen ?s (5, 5) = 7"
    by (simp_all add: example_state_def ALIVE_def DEAD_def)
  have none: "alive_neighbours ?g a b = 0" for a b
    by (simp add: alive_neighbours_def alive_at_def ALIVE_def DEAD_def)
  have fixed: "next_generation ?g = ?g"
    by (simp add: next_generation_def none next_state_def fun_eq_iff del: fun_upd_apply)
      (simp add: alive_at_def ALIVE_def DEAD_def)
  have s: "screen ?s = ?g"
    by (simp add: example_state_def)
  have "field_count (count_field ((generation ^^ k) ?s)) (5, 5) \<noteq> 3" if "k < 2" for k
  proof -
    have "k = 0 \<or> k = 1" using that by arith
    then have "screen ((generation ^^ k) ?s) = ?g"
      using s fixed by (auto simp: screen_generation)
    then show ?thesis
      using i by (simp add: count_field_eq none)
  qed
  then have "\<forall>k<2. field_count (count_field ((generation ^^ k) ?s)) (5, 5) \<noteq> 3"
    by simp
  then show ?thesis
    using nonstandard_value_persists [OF i v(1) v(2), of 2] i v(3) by simp
qed

end
